theory Spec2Isabelle
  imports Main "HOL-Library.Multiset" "HOL-Library.List_Lexorder" "HOL-Library.Char_ord"
begin

section \<open>Strings\<close>

text \<open>
  A JavaScript string is a sequence of UTF-16 code units. The model uses \<^typ>\<open>string\<close>, whose
  characters are the code units 0 to 255; on such strings the functions below are what
  \<^verbatim>\<open>String.prototype.trim\<close>, \<^verbatim>\<open>toLowerCase\<close>, \<^verbatim>\<open>split(",")\<close> and
  \<^verbatim>\<open>Array.prototype.join\<close> compute.
\<close>

definition is_ws :: "char \<Rightarrow> bool" where
  \<comment> \<open>WhiteSpace and LineTerminator code units below 256: TAB, LF, VT, FF, CR, SP, NBSP.\<close>
  "is_ws c \<longleftrightarrow> c \<in> {CHR 0x09, CHR 0x0A, CHR 0x0B, CHR 0x0C, CHR 0x0D, CHR 0x20, CHR 0xA0}"

definition trim :: "string \<Rightarrow> string" where
  "trim s = rev (dropWhile is_ws (rev (dropWhile is_ws s)))"

definition lower_char :: "char \<Rightarrow> char" where
  \<comment> \<open>A-Z, and the Latin-1 capitals 0xC0-0xDE except the multiplication sign 0xD7, are
      moved up by 0x20: their bit 5 is clear, and the lower-case letter has it set.\<close>
  "lower_char c =
     (let n = (of_char c :: nat)
      in if (65 \<le> n \<and> n \<le> 90) \<or> (192 \<le> n \<and> n \<le> 222 \<and> n \<noteq> 215)
         then (case c of Char b0 b1 b2 b3 b4 b5 b6 b7 \<Rightarrow> Char b0 b1 b2 b3 b4 True b6 b7)
         else c)"

definition toLowerCase :: "string \<Rightarrow> string" where
  "toLowerCase s = map lower_char s"

fun split_from :: "string \<Rightarrow> string \<Rightarrow> string list" where
  \<comment> \<open>\<open>split_from cur s\<close>: the pieces of \<open>s\<close> between commas, \<open>cur\<close> being the piece in progress.\<close>
  "split_from cur [] = [cur]"
| "split_from cur (c # cs) =
     (if c = CHR '','' then cur # split_from [] cs else split_from (cur @ [c]) cs)"

definition split_comma :: "string \<Rightarrow> string list" where
  "split_comma s = split_from [] s"

fun join :: "string \<Rightarrow> string list \<Rightarrow> string" where
  "join sep [] = []"
| "join sep [x] = x"
| "join sep (x # y # ys) = x @ sep @ join sep (y # ys)"

definition or_empty :: "string option \<Rightarrow> string" where
  \<comment> \<open>\<^verbatim>\<open>v || ""\<close> for a value that is a string, or \<^verbatim>\<open>undefined\<close>/\<^verbatim>\<open>null\<close> (\<open>None\<close>).\<close>
  "or_empty v = (case v of None \<Rightarrow> [] | Some s \<Rightarrow> s)"

definition parseCommaList :: "string option \<Rightarrow> string list" where
  "parseCommaList v = filter (\<lambda>s. s \<noteq> []) (map trim (split_comma (or_empty v)))"

fun uniq_from :: "string list \<Rightarrow> string list \<Rightarrow> string list" where
  \<comment> \<open>\<^verbatim>\<open>[...new Set(xs)]\<close>: insertion order, the first occurrence of each value is kept.\<close>
  "uniq_from seen [] = []"
| "uniq_from seen (x # xs) =
     (if x \<in> set seen then uniq_from seen xs else x # uniq_from (seen @ [x]) xs)"

definition uniq :: "string list \<Rightarrow> string list" where
  "uniq xs = uniq_from [] xs"

definition chip_cleanup :: "string \<Rightarrow> string" where
  \<comment> \<open>The change handler of \<^verbatim>\<open>initInputChips\<close>, as a function of the input's value.\<close>
  "chip_cleanup v = join '', '' (uniq (parseCommaList (Some v)))"

definition term_ok :: "string \<Rightarrow> bool" where
  \<comment> \<open>A list term as \<open>parseCommaList\<close> produces it: not empty, no white space at either end,
      no comma.\<close>
  "term_ok t \<longleftrightarrow> t \<noteq> [] \<and> \<not> is_ws (hd t) \<and> \<not> is_ws (last t) \<and> CHR '','' \<notin> set t"

section \<open>Numbers and \<^verbatim>\<open>parseInt\<close>\<close>

text \<open>
  The only numbers the client computes with are results of \<^verbatim>\<open>parseInt(s, 10)\<close> and the
  constant 20. \<open>Fin n\<close> is the Number whose value is the integer \<open>n\<close>; both zeros are \<open>Fin 0\<close>.
  Every integer up to \<open>2 ^ 53\<close> in magnitude is a Number. For a larger integer \<^verbatim>\<open>parseInt\<close>
  returns the nearest Number, which is again an integer; the model keeps the integer that was
  read. An integer at or beyond \<open>2 ^ 1024 - 2 ^ 970\<close>, half-way between the largest finite Number
  and \<open>2 ^ 1024\<close>, becomes an infinity.
\<close>

datatype jsnum = NaN | Fin int | PosInf | NegInf

definition overflow_bound :: int where
  "overflow_bound = 2 ^ 1024 - 2 ^ 970"

definition to_number :: "int \<Rightarrow> jsnum" where
  "to_number n =
     (if overflow_bound \<le> n then PosInf else if n \<le> - overflow_bound then NegInf else Fin n)"

definition is_digit :: "char \<Rightarrow> bool" where
  "is_digit c \<longleftrightarrow> 48 \<le> (of_char c :: nat) \<and> (of_char c :: nat) \<le> 57"

definition digit_val :: "char \<Rightarrow> nat" where
  "digit_val c = of_char c - 48"

fun dec_value :: "nat \<Rightarrow> string \<Rightarrow> nat" where
  "dec_value acc [] = acc"
| "dec_value acc (c # cs) = dec_value (10 * acc + digit_val c) cs"

definition parseInt10 :: "string \<Rightarrow> jsnum" where
  \<comment> \<open>\<^verbatim>\<open>parseInt(s, 10)\<close>: leading white space is skipped, then an optional sign, then the
      longest run of decimal digits is read; no digit gives \<^verbatim>\<open>NaN\<close>.\<close>
  "parseInt10 s =
     (let s1 = dropWhile is_ws s;
          neg = (case s1 of [] \<Rightarrow> False | c # _ \<Rightarrow> c = CHR ''-'');
          s2 = (case s1 of [] \<Rightarrow> [] | c # r \<Rightarrow> if c = CHR ''-'' \<or> c = CHR ''+'' then r else s1);
          z = takeWhile is_digit s2
      in if z = [] then NaN
         else to_number (if neg then - int (dec_value 0 z) else int (dec_value 0 z)))"

definition truthy_num :: "jsnum \<Rightarrow> bool" where
  "truthy_num n \<longleftrightarrow> n \<noteq> NaN \<and> n \<noteq> Fin 0"



section \<open>Values\<close>

text \<open>
  The values that the payload and the stored JSON are made of. An object is the list of its
  properties in insertion order. Numbers with a fractional part are left out: the client
  computes none, and in stored JSON they behave as any other non-zero number does.
\<close>

datatype jsval =
    JNull
  | JBool bool
  | JNum jsnum
  | JStr string
  | JArr "jsval list"
  | JObj "(string \<times> jsval) list"

definition truthy :: "jsval \<Rightarrow> bool" where
  "truthy v =
     (case v of JNull \<Rightarrow> False | JBool b \<Rightarrow> b | JNum n \<Rightarrow> truthy_num n | JStr s \<Rightarrow> s \<noteq> []
      | JArr _ \<Rightarrow> True | JObj _ \<Rightarrow> True)"

definition is_array :: "jsval \<Rightarrow> bool" where
  "is_array v = (case v of JArr _ \<Rightarrow> True | _ \<Rightarrow> False)"

definition is_object_or_null :: "jsval \<Rightarrow> bool" where
  \<comment> \<open>\<^verbatim>\<open>typeof v === "object"\<close>: an object, an array, or \<^verbatim>\<open>null\<close>.\<close>
  "is_object_or_null v = (case v of JObj _ \<Rightarrow> True | JArr _ \<Rightarrow> True | JNull \<Rightarrow> True | _ \<Rightarrow> False)"

definition is_string :: "jsval \<Rightarrow> bool" where
  "is_string v = (case v of JStr _ \<Rightarrow> True | _ \<Rightarrow> False)"

definition is_string_list :: "jsval \<Rightarrow> bool" where
  "is_string_list v = (case v of JArr xs \<Rightarrow> list_all is_string xs | _ \<Rightarrow> False)"

definition is_integer :: "jsval \<Rightarrow> bool" where
  \<comment> \<open>\<^verbatim>\<open>Number.isInteger\<close>: a finite Number without fractional part.\<close>
  "is_integer v = (case v of JNum (Fin _) \<Rightarrow> True | _ \<Rightarrow> False)"

definition is_boolean :: "jsval \<Rightarrow> bool" where
  "is_boolean v = (case v of JBool _ \<Rightarrow> True | _ \<Rightarrow> False)"

section \<open>The search form and its payload\<close>

text \<open>
  The form is seen through the selectors \<^verbatim>\<open>collectSearchPayload\<close> runs on it: what each
  \<^verbatim>\<open>$(...)\<close> finds (\<open>None\<close> for \<^verbatim>\<open>null\<close>) and the checked boxes each \<^verbatim>\<open>$$(...)\<close> lists, in
  document order.
\<close>

record input_el =
  el_value :: string
  el_checked :: bool

record form =
  have_by_id :: "input_el option"
  have_by_name :: "input_el option"
  avoid_by_id :: "input_el option"
  avoid_by_name :: "input_el option"
  diet_checked :: "input_el list"
  allergen_checked :: "input_el list"
  limit_el :: "input_el option"
  attach_el :: "input_el option"

definition or_else :: "'a option \<Rightarrow> 'a option \<Rightarrow> 'a option" where
  \<comment> \<open>\<^verbatim>\<open>a || b\<close> on two selector results.\<close>
  "or_else a b = (case a of None \<Rightarrow> b | Some x \<Rightarrow> Some x)"

definition list_of_input :: "input_el option \<Rightarrow> string list" where
  "list_of_input inp = (case inp of None \<Rightarrow> [] | Some el \<Rightarrow> parseCommaList (Some (el_value el)))"

definition box_value :: "input_el \<Rightarrow> string" where
  "box_value el = toLowerCase (trim (or_empty (Some (el_value el))))"

definition payload_limit :: "form \<Rightarrow> jsnum" where
  \<comment> \<open>\<^verbatim>\<open>limitInput && limitInput.value ? parseInt(limitInput.value, 10) || 20 : 20\<close>\<close>
  "payload_limit f =
     (case limit_el f of
        None \<Rightarrow> Fin 20
      | Some el \<Rightarrow>
          if el_value el = [] then Fin 20
          else (let n = parseInt10 (el_value el) in if truthy_num n then n else Fin 20))"

definition payload_attach :: "form \<Rightarrow> bool" where
  "payload_attach f = (case attach_el f of None \<Rightarrow> False | Some el \<Rightarrow> el_checked el)"

definition collectSearchPayload :: "form \<Rightarrow> jsval" where
  "collectSearchPayload f =
     (let have = list_of_input (or_else (have_by_id f) (have_by_name f));
          avoid = list_of_input (or_else (avoid_by_id f) (avoid_by_name f));
          diet = map box_value (diet_checked f);
          avoid_allergens = map box_value (allergen_checked f);
          limit = payload_limit f;
          attach_labels = payload_attach f
      in JObj [(''have'', JArr (map JStr have)),
               (''avoid'', JArr (map JStr avoid)),
               (''diet'', JArr (map JStr diet)),
               (''avoid_allergens'', JArr (map JStr avoid_allergens)),
               (''limit'', JNum limit),
               (''attach_labels'', JBool attach_labels)])"

definition search_request_shape :: "(jsval \<Rightarrow> bool) \<Rightarrow> jsval \<Rightarrow> bool" where
  \<comment> \<open>The search request of the interface description: exactly these six fields, with the
      value of \<open>limit\<close> satisfying \<open>lim\<close>.\<close>
  "search_request_shape lim v =
     (case v of
        JObj [(k1, h), (k2, a), (k3, d), (k4, g), (k5, l), (k6, t)] \<Rightarrow>
          [k1, k2, k3, k4, k5, k6]
            = [''have'', ''avoid'', ''diet'', ''avoid_allergens'', ''limit'', ''attach_labels'']
          \<and> is_string_list h \<and> is_string_list a \<and> is_string_list d \<and> is_string_list g
          \<and> lim l \<and> is_boolean t
      | _ \<Rightarrow> False)"

definition limit_form :: "string \<Rightarrow> form" where
  \<comment> \<open>A form whose only control is the limit input, holding \<open>s\<close>.\<close>
  "limit_form s =
     \<lparr>have_by_id = None, have_by_name = None, avoid_by_id = None, avoid_by_name = None,
      diet_checked = [], allergen_checked = [],
      limit_el = Some \<lparr>el_value = s, el_checked = False\<rparr>, attach_el = None\<rparr>"

section \<open>Local storage: favourites and the last search\<close>

text \<open>
  What is stored under a key is seen through \<^verbatim>\<open>JSON.parse\<close>: \<open>Absent\<close> is a key without entry
  (\<^verbatim>\<open>getItem\<close> returns \<^verbatim>\<open>null\<close>, which parses to \<^verbatim>\<open>null\<close>), \<open>Malformed\<close> is a text that
  \<^verbatim>\<open>JSON.parse\<close> rejects, and \<open>Json v\<close> is the text \<^verbatim>\<open>JSON.stringify(v)\<close>. Parsing that text
  gives \<open>json_norm v\<close>: \<^verbatim>\<open>NaN\<close> and the infinities are written as \<^verbatim>\<open>null\<close>.
\<close>

datatype item = Absent | Malformed | Json jsval

datatype js_error = SyntaxError | TypeError

primrec json_norm :: "jsval \<Rightarrow> jsval" where
  "json_norm JNull = JNull"
| "json_norm (JBool b) = JBool b"
| "json_norm (JNum n) = (case n of Fin k \<Rightarrow> JNum (Fin k) | _ \<Rightarrow> JNull)"
| "json_norm (JStr s) = JStr s"
| "json_norm (JArr vs) = JArr (map json_norm vs)"
| "json_norm (JObj kvs) = JObj (map (map_prod id json_norm) kvs)"

definition parse_item :: "item \<Rightarrow> js_error + jsval" where
  \<comment> \<open>\<^verbatim>\<open>JSON.parse(localStorage.getItem(key))\<close>\<close>
  "parse_item it =
     (case it of Absent \<Rightarrow> Inr JNull | Malformed \<Rightarrow> Inl SyntaxError | Json v \<Rightarrow> Inr (json_norm v))"

record storage =
  favorites :: item
  lastSearch :: item

definition getFavorites :: "storage \<Rightarrow> jsval" where
  "getFavorites st =
     (case parse_item (favorites st) of
        Inl _ \<Rightarrow> JArr []
      | Inr v \<Rightarrow> if truthy v then v else JArr [])"


definition loadLastSearch :: "storage \<Rightarrow> jsval" where
  "loadLastSearch st =
     (case parse_item (lastSearch st) of
        Inl _ \<Rightarrow> JNull
      | Inr v \<Rightarrow> if truthy v then v else JNull)"









section \<open>Escaping\<close>

text \<open>
  \<^verbatim>\<open>escapeHtml\<close> computes \<^verbatim>\<open>(str ?? "").toString().replace(...)\<close>. Its argument is
  \<^verbatim>\<open>undefined\<close>, \<^verbatim>\<open>null\<close>, or a value on which \<^verbatim>\<open>toString()\<close> is called:
  \<^item> \<open>ArgText s\<close> is the string \<open>s\<close>, or a number, boolean or array that \<^verbatim>\<open>toString()\<close> turns
    into the text \<open>s\<close>;
  \<^item> \<open>ArgObject props\<close> is an object as \<^verbatim>\<open>JSON.parse\<close> builds it, with own properties \<open>props\<close>.
    Without an own property \<open>toString\<close> the inherited method answers \<^verbatim>\<open>[object Object]\<close>; with
    one, whose value then is no function, the call throws a \<^verbatim>\<open>TypeError\<close>;
  \<^item> \<open>ArgThrows e\<close> is any other value on which the call throws \<open>e\<close>, such as an array that
    holds an object of the second kind.
\<close>

datatype html_arg =
    ArgUndefined
  | ArgNull
  | ArgText string
  | ArgObject "(string \<times> jsval) list"
  | ArgThrows js_error

definition arg_toString :: "html_arg \<Rightarrow> js_error + string" where
  \<comment> \<open>\<^verbatim>\<open>(str ?? "").toString()\<close>\<close>
  "arg_toString a =
     (case a of
        ArgUndefined \<Rightarrow> Inr []
      | ArgNull \<Rightarrow> Inr []
      | ArgText s \<Rightarrow> Inr s
      | ArgObject props \<Rightarrow>
          if ''toString'' \<in> set (map fst props) then Inl TypeError else Inr ''[object Object]''
      | ArgThrows e \<Rightarrow> Inl e)"

definition escape_char :: "char \<Rightarrow> string" where
  "escape_char c =
     (if c = CHR ''&'' then ''&amp;''
      else if c = CHR ''<'' then ''&lt;''
      else if c = CHR ''>'' then ''&gt;''
      else if c = CHR 0x22 then ''&quot;''
      else if c = CHR 0x27 then ''&#039;''
      else [c])"

definition escapeHtml :: "html_arg \<Rightarrow> js_error + string" where
  "escapeHtml a =
     (case arg_toString a of Inl e \<Rightarrow> Inl e | Inr s \<Rightarrow> Inr (concat (map escape_char s)))"

section \<open>Typeahead\<close>

subsection \<open>Filling the datalists\<close>

text \<open>
  A feed entry has an \<open>id\<close> and a \<open>term\<close> or a \<open>q\<close>; a field is \<open>None\<close> when the entry lacks it.
  The reply is \<open>None\<close> when the block under \<^verbatim>\<open>try\<close> throws before a datalist is touched: the
  request fails, the status is not OK, the body is not JSON, or it is not an array of objects.
\<close>

record feed_entry =
  fe_id :: "string option"
  fe_term :: "string option"
  fe_q :: "string option"

record option_el =
  opt_value :: string
  opt_data_id :: string

record request =
  req_url :: string
  req_body :: "string option"

definition entry_term :: "feed_entry \<Rightarrow> string" where
  \<comment> \<open>\<^verbatim>\<open>x.term || x.q || ""\<close>\<close>
  "entry_term x = (if or_empty (fe_term x) \<noteq> [] then or_empty (fe_term x) else or_empty (fe_q x))"

definition make_option :: "feed_entry \<Rightarrow> option_el" where
  "make_option x =
     \<lparr>opt_value = entry_term x,
      opt_data_id = (case fe_id x of None \<Rightarrow> ''undefined'' | Some i \<Rightarrow> i)\<rparr>"

definition typeahead_options :: "feed_entry list \<Rightarrow> option_el list" where
  "typeahead_options ta = map make_option (filter (\<lambda>x. entry_term x \<noteq> []) (take 1000 ta))"

definition initTypeahead ::
  "option_el list list \<Rightarrow> feed_entry list option \<Rightarrow> request list \<times> option_el list list" where
  \<comment> \<open>From the datalists found and the reply: the requests sent, and the datalists afterwards.\<close>
  "initTypeahead datalists reply =
     (if datalists = [] then ([], datalists)
      else (case reply of
              None \<Rightarrow> ([\<lparr>req_url = ''/typeahead'', req_body = None\<rparr>], datalists)
            | Some ta \<Rightarrow>
                ([\<lparr>req_url = ''/typeahead'', req_body = None\<rparr>],
                 map (\<lambda>dl. typeahead_options ta) datalists)))"

definition claimed_option_values :: "feed_entry list \<Rightarrow> string list" where
  \<comment> \<open>The option values as the claim words them: one per entry, among the first 1000, whose
      \<open>term\<close> is not empty, the value being that \<open>term\<close>.\<close>
  "claimed_option_values ta =
     map (\<lambda>x. or_empty (fe_term x)) (filter (\<lambda>x. or_empty (fe_term x) \<noteq> []) (take 1000 ta))"

subsection \<open>Replacing a typed term by its canonical label\<close>

record concept_entry =
  ce_label :: string
  ce_synonyms :: "string option list option"

definition typed_term :: "string \<Rightarrow> string" where
  \<comment> \<open>\<^verbatim>\<open>input.value.trim().toLowerCase()\<close>\<close>
  "typed_term v = toLowerCase (trim v)"

definition label_matches :: "string \<Rightarrow> concept_entry \<Rightarrow> bool" where
  "label_matches val x \<longleftrightarrow> toLowerCase (ce_label x) = val"

definition synonym_matches :: "string \<Rightarrow> concept_entry \<Rightarrow> bool" where
  \<comment> \<open>\<^verbatim>\<open>Array.isArray(x.synonyms) && x.synonyms.some(s => (s || "").toLowerCase() === val)\<close>\<close>
  "synonym_matches val x \<longleftrightarrow>
     (case ce_synonyms x of None \<Rightarrow> False
      | Some ss \<Rightarrow> list_ex (\<lambda>s. toLowerCase (or_empty s) = val) ss)"

definition entry_matches :: "string \<Rightarrow> concept_entry \<Rightarrow> bool" where
  "entry_matches val x \<longleftrightarrow> label_matches val x \<or> synonym_matches val x"

definition on_change :: "concept_entry list \<Rightarrow> string \<Rightarrow> string" where
  \<comment> \<open>The change handler of \<^verbatim>\<open>attachTypeahead\<close>: the input's value after it has run.\<close>
  "on_change data v =
     (let val = typed_term v
      in if val = [] then v
         else (case find (entry_matches val) data of None \<Rightarrow> v | Some m \<Rightarrow> ce_label m))"

definition resolve_label_first :: "concept_entry list \<Rightarrow> string \<Rightarrow> string" where
  \<comment> \<open>The resolution order as the claim words it: a match with a canonical label, whichever
      entry has it, goes before a match with a synonym.\<close>
  "resolve_label_first data v =
     (let val = typed_term v
      in if val = [] then v
         else (case find (label_matches val) data of
                 Some m \<Rightarrow> ce_label m
               | None \<Rightarrow>
                   (case find (synonym_matches val) data of None \<Rightarrow> v | Some m \<Rightarrow> ce_label m)))"

subsection \<open>Normalisation as the specification words it\<close>

function collapse_ws :: "string \<Rightarrow> string" where
  \<comment> \<open>Every run of white space becomes one space.\<close>
  "collapse_ws [] = []"
| "collapse_ws (c # cs) =
     (if is_ws c then CHR '' '' # collapse_ws (dropWhile is_ws cs) else c # collapse_ws cs)"
  by pat_completeness auto
termination
  by (relation "measure length") (auto simp: length_dropWhile_le less_Suc_eq_le)

definition normalize :: "string \<Rightarrow> string" where
  \<comment> \<open>Trimmed, lower-cased, internal white space collapsed to single spaces.\<close>
  "normalize s = collapse_ws (toLowerCase (trim s))"

section \<open>The ranking of search results\<close>

text \<open>
  Modelled from the spec: the Matcher/Ranker of the server-side engine, which is not among
  the source files; the client only sends it the payload and renders what it returns. The
  definitions follow section 4.5 of the specification. A recipe carries, for each ingredient,
  the expanded concept set of that ingredient; the query carries the expanded \<open>have\<close> and
  \<open>avoid\<close> sets.
\<close>

record 'i recipe =
  r_id :: 'i
  r_ingredients :: "string list list"
  r_diet_tags :: "string list"
  r_allergens :: "string list"

record resolved_query =
  q_have :: "string list"
  q_avoid :: "string list"
  q_diet_filters :: "string list"
  q_avoid_allergens :: "string list"
  q_limit :: nat

record 'i scored_result =
  sr_id :: 'i
  have_count :: nat
  missing_count :: nat
  avoid_count :: nat
  score :: int

definition intersects :: "'a list \<Rightarrow> 'a list \<Rightarrow> bool" where
  "intersects xs ys = list_ex (\<lambda>x. x \<in> set ys) xs"

definition excluded :: "resolved_query \<Rightarrow> 'i recipe \<Rightarrow> bool" where
  "excluded q r \<longleftrightarrow>
     intersects (r_allergens r) (q_avoid_allergens q)
     \<or> list_ex (\<lambda>d. d \<notin> set (r_diet_tags r)) (q_diet_filters q)
     \<or> list_ex (\<lambda>ing. intersects ing (q_avoid q)) (r_ingredients r)"

definition is_have :: "resolved_query \<Rightarrow> string list \<Rightarrow> bool" where
  "is_have q ing = intersects ing (q_have q)"

definition score_recipe :: "resolved_query \<Rightarrow> 'i recipe \<Rightarrow> 'i scored_result" where
  "score_recipe q r =
     (let h = length (filter (is_have q) (r_ingredients r));
          m = length (filter (\<lambda>ing. \<not> is_have q ing) (r_ingredients r))
      in \<lparr>sr_id = r_id r, have_count = h, missing_count = m, avoid_count = 0,
          score = int h - int m\<rparr>)"

definition ranks_before :: "('i::linorder) scored_result \<Rightarrow> 'i scored_result \<Rightarrow> bool" where
  \<comment> \<open>Descending by score, then descending by \<open>have_count\<close>, then ascending by recipe id.\<close>
  "ranks_before a b \<longleftrightarrow>
     score b < score a
     \<or> (score a = score b
        \<and> (have_count b < have_count a
           \<or> (have_count a = have_count b \<and> sr_id a \<le> sr_id b)))"

fun insert_ranked ::
  "('i::linorder) scored_result \<Rightarrow> 'i scored_result list \<Rightarrow> 'i scored_result list" where
  "insert_ranked x [] = [x]"
| "insert_ranked x (y # ys) =
     (if ranks_before x y then x # y # ys else y # insert_ranked x ys)"

fun rank :: "('i::linorder) scored_result list \<Rightarrow> 'i scored_result list" where
  "rank [] = []"
| "rank (x # xs) = insert_ranked x (rank xs)"

definition scored_survivors :: "resolved_query \<Rightarrow> 'i recipe list \<Rightarrow> 'i scored_result list" where
  "scored_survivors q recipes = map (score_recipe q) (filter (\<lambda>r. \<not> excluded q r) recipes)"

definition search :: "resolved_query \<Rightarrow> ('i::linorder) recipe list \<Rightarrow> 'i scored_result list" where
  "search q recipes = take (q_limit q) (rank (scored_survivors q recipes))"

section \<open>Properties of the string functions\<close>

lemma dropWhile_hd: "dropWhile P xs \<noteq> [] \<Longrightarrow> \<not> P (hd (dropWhile P xs))"
  by (simp add: hd_dropWhile)

lemma trim_hd: "trim s \<noteq> [] \<Longrightarrow> \<not> is_ws (hd (trim s))"
proof -
  assume ne: "trim s \<noteq> []"
  let ?a = "dropWhile is_ws s"
  let ?b = "dropWhile is_ws (rev ?a)"
  have b: "?b \<noteq> []" using ne by (simp add: trim_def)
  have a: "?a \<noteq> []"
  proof
    assume "?a = []"
    then have "rev ?a = []" by (simp only: rev.simps)
    then have "?b = []" by (simp only: dropWhile.simps)
    with b show False by (rule notE)
  qed
  have "rev ?a = takeWhile is_ws (rev ?a) @ ?b" by simp
  then have "?a = rev ?b @ rev (takeWhile is_ws (rev ?a))"
    by (metis rev_append rev_rev_ident)
  then have "hd ?a = hd (rev ?b)" using b by (metis hd_append2 rev_is_Nil_conv)
  moreover have "\<not> is_ws (hd ?a)" using a by (rule dropWhile_hd)
  ultimately show ?thesis by (simp add: trim_def)
qed

lemma trim_last: "trim s \<noteq> [] \<Longrightarrow> \<not> is_ws (last (trim s))"
proof -
  assume ne: "trim s \<noteq> []"
  let ?b = "dropWhile is_ws (rev (dropWhile is_ws s))"
  have b: "?b \<noteq> []" using ne by (simp add: trim_def)
  then have "\<not> is_ws (hd ?b)" by (rule dropWhile_hd)
  then show ?thesis using b by (simp add: trim_def last_rev)
qed

lemma trim_set: "set (trim s) \<subseteq> set s"
proof
  fix c assume "c \<in> set (trim s)"
  then have "c \<in> set (dropWhile is_ws (rev (dropWhile is_ws s)))" by (simp add: trim_def)
  then have "c \<in> set (rev (dropWhile is_ws s))" by (rule set_dropWhileD)
  then have "c \<in> set (dropWhile is_ws s)" by simp
  then show "c \<in> set s" by (rule set_dropWhileD)
qed

lemma dropWhile_keep: "xs \<noteq> [] \<Longrightarrow> \<not> P (hd xs) \<Longrightarrow> dropWhile P xs = xs"
  by (cases xs) auto

lemma trim_fixed:
  assumes "t \<noteq> []" "\<not> is_ws (hd t)" "\<not> is_ws (last t)"
  shows "trim t = t"
proof -
  have 1: "dropWhile is_ws t = t" using assms by (simp add: dropWhile_keep)
  have "rev t \<noteq> []" "\<not> is_ws (hd (rev t))" using assms by (simp_all add: hd_rev)
  then have 2: "dropWhile is_ws (rev t) = rev t" by (rule dropWhile_keep)
  show ?thesis by (simp add: trim_def 1 2)
qed

lemma trim_space_fixed:
  assumes "t \<noteq> []" "\<not> is_ws (hd t)" "\<not> is_ws (last t)"
  shows "trim (CHR '' '' # t) = t"
proof -
  have "is_ws CHR '' ''" by (simp add: is_ws_def)
  then have "trim (CHR '' '' # t) = trim t" by (simp add: trim_def)
  then show ?thesis using assms by (simp add: trim_fixed)
qed

lemma split_from_set:
  "t \<in> set (split_from cur s) \<Longrightarrow> CHR '','' \<notin> set cur \<Longrightarrow> CHR '','' \<notin> set t"
  by (induction cur s rule: split_from.induct) (auto split: if_splits)

lemma split_from_piece:
  "CHR '','' \<notin> set t \<Longrightarrow> split_from cur (t @ CHR '','' # s) = (cur @ t) # split_from [] s"
  by (induction t arbitrary: cur) auto

lemma split_from_last: "CHR '','' \<notin> set t \<Longrightarrow> split_from cur t = [cur @ t]"
  by (induction t arbitrary: cur) auto

lemma split_from_cur:
  "split_from cur s = (cur @ hd (split_from [] s)) # tl (split_from [] s)"
proof (induction s arbitrary: cur)
  case Nil
  show ?case by simp
next
  case (Cons c cs)
  show ?case
  proof (cases "c = CHR '',''")
    case True
    then show ?thesis by simp
  next
    case False
    have "split_from cur (c # cs) = split_from (cur @ [c]) cs" using False by simp
    also have "\<dots> = ((cur @ [c]) @ hd (split_from [] cs)) # tl (split_from [] cs)"
      by (rule Cons.IH)
    finally have l: "split_from cur (c # cs) = (cur @ c # hd (split_from [] cs)) # tl (split_from [] cs)"
      by simp
    have "split_from [] (c # cs) = split_from [c] cs" using False by simp
    also have "\<dots> = ([c] @ hd (split_from [] cs)) # tl (split_from [] cs)"
      by (rule Cons.IH)
    finally have r: "split_from [] (c # cs) = (c # hd (split_from [] cs)) # tl (split_from [] cs)"
      by simp
    show ?thesis by (simp only: l r list.sel)
  qed
qed

lemma parse_term_ok: "t \<in> set (parseCommaList v) \<Longrightarrow> term_ok t"
proof -
  assume "t \<in> set (parseCommaList v)"
  then obtain p where p: "p \<in> set (split_comma (or_empty v))" and t: "t = trim p" and ne: "t \<noteq> []"
    by (auto simp: parseCommaList_def)
  have "CHR '','' \<notin> set p" using p split_from_set [of p "[]"] by (simp add: split_comma_def)
  then have "CHR '','' \<notin> set t" using trim_set [of p] t by auto
  then show ?thesis using ne t trim_hd [of p] trim_last [of p] by (simp add: term_ok_def)
qed

lemma split_join:
  "\<forall>t \<in> set (x # xs). CHR '','' \<notin> set t \<Longrightarrow>
   split_comma (join '', '' (x # xs)) = x # map (\<lambda>s. CHR '' '' # s) xs"
proof (induction xs arbitrary: x)
  case Nil
  then show ?case by (simp add: split_comma_def split_from_last)
next
  case (Cons y ys)
  have "split_comma (join '', '' (y # ys)) = y # map (\<lambda>s. CHR '' '' # s) ys"
    using Cons by simp
  then have rest: "split_from [] (join '', '' (y # ys)) = y # map (\<lambda>s. CHR '' '' # s) ys"
    by (simp add: split_comma_def)
  have sp: "CHR '','' \<notin> set y" using Cons.prems by simp
  have x: "CHR '','' \<notin> set x" using Cons.prems by simp
  have "join '', '' (x # y # ys) = x @ CHR '','' # CHR '' '' # join '', '' (y # ys)" by simp
  then have "split_comma (join '', '' (x # y # ys))
      = x # split_from [] (CHR '' '' # join '', '' (y # ys))"
    using split_from_piece [OF x, of "[]"] by (simp add: split_comma_def)
  also have "split_from [] (CHR '' '' # join '', '' (y # ys))
      = split_from [CHR '' ''] (join '', '' (y # ys))" by simp
  also have "\<dots> = (CHR '' '' # y) # map (\<lambda>s. CHR '' '' # s) ys"
    by (simp only: split_from_cur [of "[CHR '' '']"] rest list.sel append.simps)
  finally show ?case by simp
qed


lemma uniq_from_sub: "set (uniq_from seen xs) \<subseteq> set xs"
  by (induction seen xs rule: uniq_from.induct) auto

lemma uniq_from_fresh: "set (uniq_from seen xs) \<inter> set seen = {}"
  by (induction seen xs rule: uniq_from.induct) auto

lemma uniq_from_distinct: "distinct (uniq_from seen xs)"
proof (induction seen xs rule: uniq_from.induct)
  case (1 seen)
  show ?case by simp
next
  case (2 seen x xs)
  then show ?case using uniq_from_fresh [of "seen @ [x]" xs] by auto
qed

lemma uniq_from_keep: "distinct xs \<Longrightarrow> set xs \<inter> set seen = {} \<Longrightarrow> uniq_from seen xs = xs"
  by (induction seen xs rule: uniq_from.induct) auto

lemma parse_join:
  assumes "\<forall>t \<in> set ts. term_ok t"
  shows "parseCommaList (Some (join '', '' ts)) = ts"
proof (cases ts)
  case Nil
  then show ?thesis by (simp add: parseCommaList_def or_empty_def split_comma_def trim_def)
next
  case (Cons x xs)
  have nc: "\<forall>t \<in> set (x # xs). CHR '','' \<notin> set t" using assms Cons by (simp add: term_ok_def)
  have fx: "\<And>t. t \<in> set ts \<Longrightarrow> trim t = t \<and> trim (CHR '' '' # t) = t \<and> t \<noteq> []"
    using assms by (simp add: term_ok_def trim_fixed trim_space_fixed)
  have "map trim (x # map (\<lambda>s. CHR '' '' # s) xs) = x # xs"
    using fx Cons by (simp add: map_idI)
  then have "map trim (split_comma (join '', '' ts)) = ts"
    using split_join [OF nc] Cons by simp
  moreover have "filter (\<lambda>s. s \<noteq> []) ts = ts" using fx by (simp add: filter_id_conv)
  ultimately show ?thesis by (simp add: parseCommaList_def or_empty_def)
qed

text \<open>
  Claim C10. The clean-up that \<^verbatim>\<open>initInputChips\<close> applies to an input's value (parse the comma
  list, drop repeated terms, join with a comma and a space) is idempotent: applied to its own
  output it returns that output unchanged.
\<close>

theorem chip_cleanup_idem: "chip_cleanup (chip_cleanup v) = chip_cleanup v"
proof -
  let ?ts = "uniq (parseCommaList (Some v))"
  have "set ?ts \<subseteq> set (parseCommaList (Some v))" by (simp add: uniq_def uniq_from_sub)
  then have ok: "\<forall>t \<in> set ?ts. term_ok t" using parse_term_ok by blast
  have d: "distinct ?ts" by (simp add: uniq_def uniq_from_distinct)
  have "parseCommaList (Some (chip_cleanup v)) = ?ts"
    unfolding chip_cleanup_def using ok by (rule parse_join)
  moreover have "uniq ?ts = ?ts" using d by (simp add: uniq_def uniq_from_keep)
  ultimately show ?thesis by (simp add: chip_cleanup_def)
qed

theorem chip_cleanup_idem_witness:
  "chip_cleanup '' b , a,,b , c d'' = ''b, a, c d'' \<and> chip_cleanup ''b, a, c d'' = ''b, a, c d''"
  using chip_cleanup_idem [of "'' b , a,,b , c d''"]
  by (simp add: chip_cleanup_def uniq_def parseCommaList_def or_empty_def split_comma_def
      trim_def is_ws_def)


section \<open>The limit and the shape of the payload\<close>












lemma is_digit_val: "is_digit c \<Longrightarrow> digit_val c \<le> 9"
  unfolding is_digit_def digit_val_def by linarith

lemma dec_value_bound:
  "\<forall>c \<in> set z. is_digit c \<Longrightarrow> dec_value acc z < (acc + 1) * 10 ^ length z"
proof (induction z arbitrary: acc)
  case Nil
  show ?case by simp
next
  case (Cons c cs)
  have d: "digit_val c \<le> 9" using Cons.prems by (simp add: is_digit_val)
  have "dec_value (10 * acc + digit_val c) cs < (10 * acc + digit_val c + 1) * 10 ^ length cs"
    using Cons by simp
  also have "\<dots> \<le> (10 * acc + 10) * 10 ^ length cs"
    using d by (intro mult_right_mono) simp_all
  also have "\<dots> = (acc + 1) * 10 ^ length (c # cs)" by (simp add: algebra_simps)
  finally show ?case by simp
qed

lemma short_below_overflow: "(10::int) ^ 308 < overflow_bound"
  by (simp add: overflow_bound_def)

lemma to_number_short:
  assumes "\<forall>c \<in> set z. is_digit c" "length z \<le> 308"
  shows "to_number (int (dec_value 0 z)) = Fin (int (dec_value 0 z))"
    and "to_number (- int (dec_value 0 z)) = Fin (- int (dec_value 0 z))"
proof -
  have "dec_value 0 z < 10 ^ length z" using dec_value_bound [OF assms(1), of 0] by simp
  also have "(10::nat) ^ length z \<le> 10 ^ 308" using assms(2) by (intro power_increasing) simp_all
  finally have "int (dec_value 0 z) < 10 ^ 308" by (metis of_nat_less_iff of_nat_numeral of_nat_power)
  then have b: "int (dec_value 0 z) < overflow_bound" using short_below_overflow by linarith
  have n: "0 \<le> int (dec_value 0 z)" by simp
  have "\<not> overflow_bound \<le> int (dec_value 0 z)" "\<not> int (dec_value 0 z) \<le> - overflow_bound"
    using b n by linarith+
  then show "to_number (int (dec_value 0 z)) = Fin (int (dec_value 0 z))"
    by (simp only: to_number_def if_False)
  have "\<not> overflow_bound \<le> - int (dec_value 0 z)" "\<not> - int (dec_value 0 z) \<le> - overflow_bound"
    using b n by linarith+
  then show "to_number (- int (dec_value 0 z)) = Fin (- int (dec_value 0 z))"
    by (simp only: to_number_def if_False)
qed

lemma parseInt10_short:
  assumes "length s \<le> 308"
  shows "parseInt10 s \<noteq> PosInf \<and> parseInt10 s \<noteq> NegInf"
proof -
  define s1 where "s1 = dropWhile is_ws s"
  define s2 where "s2 = (case s1 of [] \<Rightarrow> [] | c # r \<Rightarrow> if c = CHR ''-'' \<or> c = CHR ''+'' then r else s1)"
  define z where "z = takeWhile is_digit s2"
  have "length s1 \<le> length s" unfolding s1_def by (rule length_dropWhile_le)
  moreover have "length s2 \<le> length s1" unfolding s2_def by (cases s1) auto
  moreover have "length z \<le> length s2" unfolding z_def by (rule length_takeWhile_le)
  ultimately have len: "length z \<le> 308" using assms by linarith
  have dig: "\<forall>c \<in> set z. is_digit c" unfolding z_def by (auto dest: set_takeWhileD)
  have "parseInt10 s = NaN \<or> parseInt10 s = to_number (int (dec_value 0 z))
      \<or> parseInt10 s = to_number (- int (dec_value 0 z))"
    unfolding parseInt10_def Let_def z_def s2_def s1_def by simp
  then show ?thesis using to_number_short [OF dig len] by auto
qed

lemma payload_fields:
  "search_request_shape lim (collectSearchPayload f) \<longleftrightarrow> lim (JNum (payload_limit f))"
  by (simp add: search_request_shape_def collectSearchPayload_def Let_def is_string_list_def
      is_string_def is_boolean_def list_all_iff)

lemma payload_limit_kind:
  "is_integer (JNum (payload_limit f)) \<or> payload_limit f = PosInf \<or> payload_limit f = NegInf"
proof (cases "payload_limit f")
  case NaN
  then show ?thesis
    by (auto simp: payload_limit_def truthy_num_def Let_def split: option.splits if_splits)
qed (simp_all add: is_integer_def)

text \<open>
  Claim C3, as amended. For every form, \<open>collectSearchPayload\<close> returns an object with exactly
  the fields \<open>have\<close>, \<open>avoid\<close>, \<open>diet\<close>, \<open>avoid_allergens\<close>, \<open>limit\<close>, \<open>attach_labels\<close>; the
  first four are lists of strings and \<open>attach_labels\<close> is a boolean; \<open>limit\<close> is a number that is
  an integer or an infinity, and it is an integer whenever the limit input holds at most 308
  characters.
\<close>

theorem payload_shape:
  "search_request_shape (\<lambda>l. is_integer l \<or> l = JNum PosInf \<or> l = JNum NegInf)
     (collectSearchPayload f)
   \<and> ((\<forall>el. limit_el f = Some el \<longrightarrow> length (el_value el) \<le> 308)
        \<longrightarrow> search_request_shape is_integer (collectSearchPayload f))"
proof (intro conjI impI)
  show "search_request_shape (\<lambda>l. is_integer l \<or> l = JNum PosInf \<or> l = JNum NegInf)
     (collectSearchPayload f)"
    using payload_limit_kind [of f] by (simp add: payload_fields)
next
  assume short: "\<forall>el. limit_el f = Some el \<longrightarrow> length (el_value el) \<le> 308"
  have "payload_limit f \<noteq> PosInf \<and> payload_limit f \<noteq> NegInf"
  proof (cases "limit_el f")
    case None
    then show ?thesis by (simp add: payload_limit_def)
  next
    case (Some el)
    then have "parseInt10 (el_value el) \<noteq> PosInf \<and> parseInt10 (el_value el) \<noteq> NegInf"
      using short parseInt10_short by blast
    then show ?thesis using Some by (simp add: payload_limit_def Let_def)
  qed
  then show "search_request_shape is_integer (collectSearchPayload f)"
    using payload_limit_kind [of f] by (simp add: payload_fields)
qed

theorem payload_shape_witness:
  "limit_el (limit_form ''7'') = Some \<lparr>el_value = ''7'', el_checked = False\<rparr>
   \<and> length ''7'' \<le> 308
   \<and> search_request_shape is_integer (collectSearchPayload (limit_form ''7''))
   \<and> collectSearchPayload (limit_form ''7'')
       = JObj [(''have'', JArr []), (''avoid'', JArr []), (''diet'', JArr []),
               (''avoid_allergens'', JArr []), (''limit'', JNum (Fin 7)),
               (''attach_labels'', JBool False)]"
  using payload_shape [of "limit_form ''7''"]
  by (simp add: limit_form_def collectSearchPayload_def payload_limit_def payload_attach_def
      list_of_input_def or_else_def parseInt10_def is_ws_def is_digit_def digit_val_def
      to_number_def overflow_bound_def truthy_num_def)

text \<open>
  The claim as stated fails: a limit input holding 1 followed by 309 zeros parses to
  \<^verbatim>\<open>Infinity\<close>, which is truthy, so it is the payload's \<open>limit\<close>, and it is not an integer.
\<close>

theorem payload_limit_not_integer:
  "\<not> search_request_shape is_integer (collectSearchPayload (limit_form ''1000000000000000000000000000000000000000000000000000000000000000000000000000000000000000000000000000000000000000000000000000000000000000000000000000000000000000000000000000000000000000000000000000000000000000000000000000000000000000000000000000000000000000000000000000000000000000000000000000000000000000000000''))"
  by (simp add: payload_fields is_integer_def limit_form_def payload_limit_def
      parseInt10_def is_ws_def is_digit_def digit_val_def
      to_number_def overflow_bound_def truthy_num_def)














section \<open>Escaping, stored values and favourites\<close>

lemma escape_char_safe:
  "set (escape_char c) \<inter> {CHR ''<'', CHR ''>'', CHR 0x22, CHR 0x27} = {}"
  by (simp add: escape_char_def)

lemma escaped_safe:
  "set (concat (map escape_char s)) \<inter> {CHR ''<'', CHR ''>'', CHR 0x22, CHR 0x27} = {}"
proof -
  have "\<forall>d. set (escape_char d) \<inter> {CHR ''<'', CHR ''>'', CHR 0x22, CHR 0x27} = {}"
    using escape_char_safe by blast
  then show ?thesis by auto
qed

text \<open>
  Claim C9, as amended. \<open>escapeHtml\<close> returns the empty text for \<^verbatim>\<open>undefined\<close> and \<^verbatim>\<open>null\<close>.
  Whenever it returns, its output contains none of the characters \<open><\<close>, \<open>>\<close>, the double
  quote (0x22) and the single quote (0x27). It returns for every string and for every value that
  \<^verbatim>\<open>toString()\<close> turns into a text, an object without own \<open>toString\<close> included; for an object
  with an own property \<open>toString\<close> it throws a \<^verbatim>\<open>TypeError\<close>, and so it does wherever
  \<^verbatim>\<open>toString()\<close> throws.
\<close>

theorem escapeHtml_safe:
  "escapeHtml ArgUndefined = Inr [] \<and> escapeHtml ArgNull = Inr []
   \<and> (\<forall>out. escapeHtml a = Inr out \<longrightarrow>
         set out \<inter> {CHR ''<'', CHR ''>'', CHR 0x22, CHR 0x27} = {})
   \<and> (\<forall>s. a = ArgText s \<longrightarrow> escapeHtml a = Inr (concat (map escape_char s)))
   \<and> (\<forall>props. a = ArgObject props \<longrightarrow>
         escapeHtml a = (if ''toString'' \<in> fst ` set props then Inl TypeError
                         else Inr ''[object Object]''))
   \<and> (\<forall>e. a = ArgThrows e \<longrightarrow> escapeHtml a = Inl e)"
proof (intro conjI allI impI)
  fix out assume "escapeHtml a = Inr out"
  then obtain s where "out = concat (map escape_char s)"
    by (auto simp: escapeHtml_def split: sum.splits)
  then show "set out \<inter> {CHR ''<'', CHR ''>'', CHR 0x22, CHR 0x27} = {}"
    by (simp only: escaped_safe)
next
  fix props assume "a = ArgObject props"
  then show "escapeHtml a = (if ''toString'' \<in> fst ` set props then Inl TypeError
                         else Inr ''[object Object]'')"
    by (simp add: escapeHtml_def arg_toString_def escape_char_def)
qed (simp_all add: escapeHtml_def arg_toString_def)

theorem escapeHtml_safe_witness:
  "escapeHtml (ArgText (''<b>'' @ [CHR 0x22, CHR 0x27] @ ''&''))
     = Inr ''&lt;b&gt;&quot;&#039;&amp;''
   \<and> set ''&lt;b&gt;&quot;&#039;&amp;'' \<inter> {CHR ''<'', CHR ''>'', CHR 0x22, CHR 0x27} = {}
   \<and> escapeHtml (ArgObject [(''title'', JStr ''<i>'')]) = Inr ''[object Object]''"
  using escapeHtml_safe [of "ArgText (''<b>'' @ [CHR 0x22, CHR 0x27] @ ''&'')"]
    escapeHtml_safe [of "ArgObject [(''title'', JStr ''<i>'')]"]
  by (simp add: escapeHtml_def arg_toString_def escape_char_def)

text \<open>
  The claim as stated fails: \<open>escapeHtml\<close> is not total. On the object that
  \<^verbatim>\<open>JSON.parse('{"toString":1}')\<close> builds, \<^verbatim>\<open>toString\<close> is the number 1, and calling it throws.
\<close>

theorem escapeHtml_throws:
  "escapeHtml (ArgObject [(''toString'', JNum (Fin 1))]) = Inl TypeError"
  by (simp add: escapeHtml_def arg_toString_def)

lemma getFavorites_fallback:
  "favorites st = Absent \<or> favorites st = Malformed \<Longrightarrow> getFavorites st = JArr []"
  by (auto simp: getFavorites_def parse_item_def truthy_def)

lemma loadLastSearch_fallback:
  "lastSearch st = Absent \<or> lastSearch st = Malformed \<Longrightarrow> loadLastSearch st = JNull"
  by (auto simp: loadLastSearch_def parse_item_def truthy_def)

lemma is_array_norm: "is_array (json_norm v) = is_array v"
  by (cases v) (auto simp: is_array_def split: jsnum.splits)

lemma is_object_norm: "truthy (json_norm v) \<Longrightarrow> is_object_or_null (json_norm v) = is_object_or_null v"
  by (cases v) (auto simp: is_object_or_null_def truthy_def truthy_num_def split: jsnum.splits)

text \<open>
  Claim C8, as amended. When nothing is stored or what is stored is not valid JSON,
  \<open>getFavorites\<close> returns the empty array and \<open>loadLastSearch\<close> returns \<^verbatim>\<open>null\<close>; no exception
  leaves either function. When valid JSON is stored they return the parsed value if it is
  truthy and the fallback otherwise, so \<open>getFavorites\<close> returns an array exactly when the stored
  value is an array or falsy, and \<open>loadLastSearch\<close> returns an object, an array or \<^verbatim>\<open>null\<close>
  exactly when the stored value is one of these or falsy.
\<close>

theorem stored_value_or_fallback:
  "(favorites st = Absent \<or> favorites st = Malformed \<longrightarrow> getFavorites st = JArr [])
   \<and> (lastSearch st = Absent \<or> lastSearch st = Malformed \<longrightarrow> loadLastSearch st = JNull)
   \<and> (\<forall>v. favorites st = Json v \<longrightarrow>
         getFavorites st = (if truthy (json_norm v) then json_norm v else JArr [])
         \<and> (is_array (getFavorites st) \<longleftrightarrow> is_array v \<or> \<not> truthy (json_norm v)))
   \<and> (\<forall>v. lastSearch st = Json v \<longrightarrow>
         loadLastSearch st = (if truthy (json_norm v) then json_norm v else JNull)
         \<and> (is_object_or_null (loadLastSearch st) \<longleftrightarrow>
              is_object_or_null v \<or> \<not> truthy (json_norm v)))"
proof (intro conjI allI impI)
  fix v assume "favorites st = Json v"
  then show "getFavorites st = (if truthy (json_norm v) then json_norm v else JArr [])"
    by (simp add: getFavorites_def parse_item_def)
  then show "is_array (getFavorites st) \<longleftrightarrow> is_array v \<or> \<not> truthy (json_norm v)"
    by (cases "truthy (json_norm v)") (simp_all add: is_array_norm, simp add: is_array_def)
next
  fix v assume "lastSearch st = Json v"
  then show l: "loadLastSearch st = (if truthy (json_norm v) then json_norm v else JNull)"
    by (simp add: loadLastSearch_def parse_item_def)
  show "is_object_or_null (loadLastSearch st) \<longleftrightarrow> is_object_or_null v \<or> \<not> truthy (json_norm v)"
  proof (cases "truthy (json_norm v)")
    case True
    then show ?thesis using l by (simp add: is_object_norm)
  next
    case False
    then show ?thesis using l by (simp add: is_object_or_null_def)
  qed
qed (simp_all add: getFavorites_fallback loadLastSearch_fallback)

theorem stored_value_or_fallback_witness:
  "getFavorites \<lparr>favorites = Malformed, lastSearch = Absent\<rparr> = JArr []
   \<and> loadLastSearch \<lparr>favorites = Malformed, lastSearch = Absent\<rparr> = JNull
   \<and> getFavorites \<lparr>favorites = Json (JArr [JNum (Fin 3)]), lastSearch = Json (JNum (Fin 0))\<rparr>
       = JArr [JNum (Fin 3)]
   \<and> loadLastSearch \<lparr>favorites = Json (JArr [JNum (Fin 3)]), lastSearch = Json (JNum (Fin 0))\<rparr>
       = JNull"
  using stored_value_or_fallback [of "\<lparr>favorites = Malformed, lastSearch = Absent\<rparr>"]
    stored_value_or_fallback
      [of "\<lparr>favorites = Json (JArr [JNum (Fin 3)]), lastSearch = Json (JNum (Fin 0))\<rparr>"]
  by (simp add: truthy_def truthy_num_def)

text \<open>
  The claim as stated fails on stored JSON that is valid and truthy but of another type: with
  \<^verbatim>\<open>5\<close> stored \<open>getFavorites\<close> returns the number 5, and with \<^verbatim>\<open>"abc"\<close> stored
  \<open>loadLastSearch\<close> returns that string.
\<close>

theorem stored_number_returned:
  "getFavorites \<lparr>favorites = Json (JNum (Fin 5)), lastSearch = Json (JStr ''abc'')\<rparr> = JNum (Fin 5)
   \<and> \<not> is_array (JNum (Fin 5))
   \<and> loadLastSearch \<lparr>favorites = Json (JNum (Fin 5)), lastSearch = Json (JStr ''abc'')\<rparr>
       = JStr ''abc''
   \<and> \<not> is_object_or_null (JStr ''abc'')"
  by (simp add: getFavorites_def loadLastSearch_def parse_item_def truthy_def truthy_num_def
      is_array_def is_object_or_null_def)













section \<open>Typeahead and normalisation\<close>

lemma option_values:
  "map opt_value (typeahead_options ta) = filter (\<lambda>t. t \<noteq> []) (map entry_term (take 1000 ta))"
  by (simp add: typeahead_options_def make_option_def filter_map comp_def)

lemma options_capped: "length (typeahead_options ta) \<le> 1000"
proof -
  have "length (typeahead_options ta) \<le> length (take 1000 ta)"
    unfolding typeahead_options_def length_map by (rule length_filter_le)
  then show ?thesis by simp
qed

lemma claimed_values_when_termed:
  assumes "\<forall>x \<in> set ta. or_empty (fe_term x) \<noteq> [] \<or> or_empty (fe_q x) = []"
  shows "map opt_value (typeahead_options ta) = claimed_option_values ta"
proof -
  have e: "\<forall>x \<in> set (take 1000 ta). entry_term x = or_empty (fe_term x)"
    using assms by (auto simp: entry_term_def dest: in_set_takeD)
  then have "filter (\<lambda>x. entry_term x \<noteq> []) (take 1000 ta)
      = filter (\<lambda>x. or_empty (fe_term x) \<noteq> []) (take 1000 ta)"
    by (intro filter_cong) simp_all
  moreover have "map (opt_value \<circ> make_option) (filter (\<lambda>x. or_empty (fe_term x) \<noteq> []) (take 1000 ta))
      = map (\<lambda>x. or_empty (fe_term x)) (filter (\<lambda>x. or_empty (fe_term x) \<noteq> []) (take 1000 ta))"
    using e by (intro map_cong) (simp_all add: make_option_def)
  ultimately show ?thesis
    by (simp add: typeahead_options_def claimed_option_values_def)
qed

text \<open>
  Claim C7, as amended. With no ingredient datalist on the page \<open>initTypeahead\<close> sends nothing.
  Otherwise it sends one request, to \<^verbatim>\<open>/typeahead\<close>, without query or body. If the reply cannot be
  used the datalists stay as they are; if it is a feed, every datalist gets one option for each
  of the first 1000 entries whose term, or failing that whose \<open>q\<close>, is not empty, in feed order,
  the option's value being that term or \<open>q\<close>. Where no entry relies on \<open>q\<close>, these are the
  values the claim names.
\<close>

theorem initTypeahead_fills:
  "(datalists = [] \<longrightarrow> initTypeahead datalists reply = ([], []))
   \<and> (datalists \<noteq> [] \<longrightarrow>
        fst (initTypeahead datalists reply) = [\<lparr>req_url = ''/typeahead'', req_body = None\<rparr>]
      \<and> (reply = None \<longrightarrow> snd (initTypeahead datalists reply) = datalists)
      \<and> (\<forall>ta. reply = Some ta \<longrightarrow>
            length (snd (initTypeahead datalists reply)) = length datalists
          \<and> (\<forall>dl \<in> set (snd (initTypeahead datalists reply)).
                map opt_value dl = filter (\<lambda>t. t \<noteq> []) (map entry_term (take 1000 ta))
              \<and> length dl \<le> 1000
              \<and> ((\<forall>x \<in> set ta. or_empty (fe_term x) \<noteq> [] \<or> or_empty (fe_q x) = [])
                    \<longrightarrow> map opt_value dl = claimed_option_values ta))))"
proof (intro conjI impI allI ballI)
  assume "datalists = []"
  then show "initTypeahead datalists reply = ([], [])" by (simp add: initTypeahead_def)
next
  assume "datalists \<noteq> []"
  then show "fst (initTypeahead datalists reply) = [\<lparr>req_url = ''/typeahead'', req_body = None\<rparr>]"
    by (simp add: initTypeahead_def split: option.splits)
next
  assume "datalists \<noteq> []" "reply = None"
  then show "snd (initTypeahead datalists reply) = datalists" by (simp add: initTypeahead_def)
next
  fix ta assume "datalists \<noteq> []" "reply = Some ta"
  then show "length (snd (initTypeahead datalists reply)) = length datalists"
    by (simp add: initTypeahead_def)
next
  fix ta dl
  assume a: "datalists \<noteq> []" "reply = Some ta" "dl \<in> set (snd (initTypeahead datalists reply))"
  then have dl: "dl = typeahead_options ta" by (auto simp: initTypeahead_def)
  show "map opt_value dl = filter (\<lambda>t. t \<noteq> []) (map entry_term (take 1000 ta))"
    by (simp only: dl option_values)
  show "length dl \<le> 1000" by (simp only: dl options_capped)
  assume "\<forall>x \<in> set ta. or_empty (fe_term x) \<noteq> [] \<or> or_empty (fe_q x) = []"
  then show "map opt_value dl = claimed_option_values ta"
    unfolding dl by (rule claimed_values_when_termed)
qed

theorem initTypeahead_fills_witness:
  "[[]] \<noteq> ([] :: option_el list list)
   \<and> initTypeahead [[]]
        (Some [\<lparr>fe_id = Some ''c1'', fe_term = Some ''rice'', fe_q = None\<rparr>,
               \<lparr>fe_id = Some ''c2'', fe_term = Some [], fe_q = None\<rparr>])
      = ([\<lparr>req_url = ''/typeahead'', req_body = None\<rparr>],
         [[\<lparr>opt_value = ''rice'', opt_data_id = ''c1''\<rparr>]])
   \<and> claimed_option_values
        [\<lparr>fe_id = Some ''c1'', fe_term = Some ''rice'', fe_q = None\<rparr>,
         \<lparr>fe_id = Some ''c2'', fe_term = Some [], fe_q = None\<rparr>] = [''rice'']"
  using initTypeahead_fills [of "[[]]"
      "Some [\<lparr>fe_id = Some ''c1'', fe_term = Some ''rice'', fe_q = None\<rparr>,
             \<lparr>fe_id = Some ''c2'', fe_term = Some [], fe_q = None\<rparr>]"]
  by (simp add: initTypeahead_def typeahead_options_def make_option_def entry_term_def
      or_empty_def claimed_option_values_def)

text \<open>
  The claim as stated fails twice: on a page without ingredient datalist no request is sent,
  and an entry without \<open>term\<close> but with \<open>q\<close> gets an option, whose value is that \<open>q\<close>.
\<close>

theorem initTypeahead_no_fetch_and_q:
  "fst (initTypeahead [] (Some [\<lparr>fe_id = Some ''c1'', fe_term = Some ''rice'', fe_q = None\<rparr>])) = []
   \<and> map (map opt_value)
        (snd (initTypeahead [[]] (Some [\<lparr>fe_id = Some ''c1'', fe_term = None, fe_q = Some ''rice''\<rparr>])))
      = [[''rice'']]
   \<and> claimed_option_values [\<lparr>fe_id = Some ''c1'', fe_term = None, fe_q = Some ''rice''\<rparr>] = []"
  by (simp add: initTypeahead_def typeahead_options_def make_option_def entry_term_def
      or_empty_def claimed_option_values_def)

lemma find_first:
  "i < length xs \<Longrightarrow> P (xs ! i) \<Longrightarrow> \<forall>j < i. \<not> P (xs ! j) \<Longrightarrow> find P xs = Some (xs ! i)"
  by (auto simp: find_Some_iff)

lemma find_in: "find P xs = Some x \<Longrightarrow> x \<in> set xs \<and> P x"
  by (auto simp: find_Some_iff)

lemma on_change_unique:
  assumes u: "\<forall>x \<in> set data. \<forall>y \<in> set data.
      entry_matches (typed_term v) x \<and> entry_matches (typed_term v) y \<longrightarrow> x = y"
  shows "on_change data v = resolve_label_first data v"
proof (cases "typed_term v = []")
  case True
  then show ?thesis by (simp add: on_change_def resolve_label_first_def)
next
  case ne: False
  let ?val = "typed_term v"
  show ?thesis
  proof (cases "find (entry_matches ?val) data")
    case None
    then have no: "\<forall>x \<in> set data. \<not> entry_matches ?val x" by (simp add: find_None_iff)
    then have "find (label_matches ?val) data = None" "find (synonym_matches ?val) data = None"
      by (auto simp: find_None_iff entry_matches_def)
    then show ?thesis using None ne by (simp add: on_change_def resolve_label_first_def)
  next
    case (Some m)
    then have m: "m \<in> set data" "entry_matches ?val m" using find_in by fastforce+
    have l: "on_change data v = ce_label m" using Some ne by (simp add: on_change_def)
    show ?thesis
    proof (cases "find (label_matches ?val) data")
      case (Some m')
      then have "m' \<in> set data" "entry_matches ?val m'"
        using find_in [OF Some] by (simp_all add: entry_matches_def)
      then have "m' = m" using u m by blast
      then show ?thesis using l Some ne by (simp add: resolve_label_first_def)
    next
      case None
      then have "\<not> label_matches ?val m" using m(1) by (auto simp: find_None_iff)
      then have "synonym_matches ?val m" using m(2) by (simp add: entry_matches_def)
      then obtain m' where s: "find (synonym_matches ?val) data = Some m'"
        using m(1) by (cases "find (synonym_matches ?val) data") (auto simp: find_None_iff)
      then have "m' \<in> set data" "entry_matches ?val m'"
        using find_in [OF s] by (simp_all add: entry_matches_def)
      then have "m' = m" using u m by blast
      then show ?thesis using l None s ne by (simp add: resolve_label_first_def)
    qed
  qed
qed

text \<open>
  Claim C5, as amended. The typed term is the input's value, trimmed and lower-cased. If it is
  empty, or no feed entry has it as lower-cased label or synonym, the input keeps its value.
  Otherwise the input gets the label of the first entry, in feed order, that has it as label
  or as synonym. If at most one entry matches, this is the label that label-before-synonym
  resolution gives.
\<close>

theorem on_change_first_match:
  "(typed_term v = [] \<longrightarrow> on_change data v = v)
   \<and> ((\<forall>x \<in> set data. \<not> entry_matches (typed_term v) x) \<longrightarrow> on_change data v = v)
   \<and> (typed_term v \<noteq> [] \<longrightarrow>
        (\<forall>i < length data.
           entry_matches (typed_term v) (data ! i)
           \<and> (\<forall>j < i. \<not> entry_matches (typed_term v) (data ! j))
           \<longrightarrow> on_change data v = ce_label (data ! i)))
   \<and> ((\<forall>x \<in> set data. \<forall>y \<in> set data.
          entry_matches (typed_term v) x \<and> entry_matches (typed_term v) y \<longrightarrow> x = y)
        \<longrightarrow> on_change data v = resolve_label_first data v)"
proof (intro conjI impI allI)
  assume "typed_term v = []"
  then show "on_change data v = v" by (simp add: on_change_def)
next
  assume "\<forall>x \<in> set data. \<not> entry_matches (typed_term v) x"
  then have "find (entry_matches (typed_term v)) data = None" by (simp add: find_None_iff)
  then show "on_change data v = v" by (simp add: on_change_def Let_def)
next
  fix i
  assume ne: "typed_term v \<noteq> []" and i: "i < length data"
    and m: "entry_matches (typed_term v) (data ! i)
      \<and> (\<forall>j < i. \<not> entry_matches (typed_term v) (data ! j))"
  have "find (entry_matches (typed_term v)) data = Some (data ! i)"
    using i m by (intro find_first) simp_all
  then show "on_change data v = ce_label (data ! i)" using ne by (simp add: on_change_def)
next
  assume "\<forall>x \<in> set data. \<forall>y \<in> set data.
      entry_matches (typed_term v) x \<and> entry_matches (typed_term v) y \<longrightarrow> x = y"
  then show "on_change data v = resolve_label_first data v" by (rule on_change_unique)
qed

theorem on_change_first_match_witness:
  "typed_term '' LAIT de coco'' = ''lait de coco''
   \<and> on_change
        [\<lparr>ce_label = ''Rice'', ce_synonyms = None\<rparr>,
         \<lparr>ce_label = ''Coconut milk'', ce_synonyms = Some [Some ''coco milk'', None, Some ''Lait de Coco'']\<rparr>]
        '' LAIT de coco'' = ''Coconut milk''
   \<and> resolve_label_first
        [\<lparr>ce_label = ''Rice'', ce_synonyms = None\<rparr>,
         \<lparr>ce_label = ''Coconut milk'', ce_synonyms = Some [Some ''coco milk'', None, Some ''Lait de Coco'']\<rparr>]
        '' LAIT de coco'' = ''Coconut milk''"
  using on_change_first_match
    [of "'' LAIT de coco''"
      "[\<lparr>ce_label = ''Rice'', ce_synonyms = None\<rparr>,
        \<lparr>ce_label = ''Coconut milk'',
          ce_synonyms = Some [Some ''coco milk'', None, Some ''Lait de Coco'']\<rparr>]"]
  by (simp add: on_change_def resolve_label_first_def typed_term_def trim_def is_ws_def
      toLowerCase_def lower_char_def entry_matches_def label_matches_def synonym_matches_def
      or_empty_def)

text \<open>
  The claim as stated fails where an earlier entry has the term as synonym and a later entry
  has it as label: the earlier entry's label replaces the input, although the term is the
  later entry's canonical label.
\<close>

theorem synonym_before_label:
  "on_change
     [\<lparr>ce_label = ''Coconut milk'', ce_synonyms = Some [Some ''milk'']\<rparr>,
      \<lparr>ce_label = ''Milk'', ce_synonyms = Some []\<rparr>] ''milk'' = ''Coconut milk''
   \<and> resolve_label_first
     [\<lparr>ce_label = ''Coconut milk'', ce_synonyms = Some [Some ''milk'']\<rparr>,
      \<lparr>ce_label = ''Milk'', ce_synonyms = Some []\<rparr>] ''milk'' = ''Milk''"
  by (simp add: on_change_def resolve_label_first_def typed_term_def trim_def is_ws_def
      toLowerCase_def lower_char_def entry_matches_def label_matches_def synonym_matches_def
      or_empty_def)

lemma ws_not_upper: "is_ws c \<Longrightarrow> lower_char c = c"
  by (auto simp: is_ws_def lower_char_def)

lemma lower_not_ws: "\<not> is_ws c \<Longrightarrow> \<not> is_ws (lower_char c)"
  by (cases c) (simp add: lower_char_def Let_def is_ws_def)

lemma is_ws_lower: "is_ws (lower_char c) = is_ws c"
  using ws_not_upper [of c] lower_not_ws [of c] by auto

lemma lower_char_idem: "lower_char (lower_char c) = lower_char c"
proof (cases c)
  case (Char b0 b1 b2 b3 b4 b5 b6 b7)
  then show ?thesis
    by (cases b5; cases b6; cases b7; cases b0; cases b1; cases b2; cases b3; cases b4;
        simp add: lower_char_def Let_def)
qed

lemma toLowerCase_idem: "toLowerCase (toLowerCase s) = toLowerCase s"
  by (simp add: toLowerCase_def lower_char_idem)

lemma dropWhile_lower: "dropWhile is_ws (map lower_char s) = map lower_char (dropWhile is_ws s)"
  by (simp add: dropWhile_map comp_def is_ws_lower)

lemma trim_lower: "trim (toLowerCase s) = toLowerCase (trim s)"
  by (simp add: trim_def toLowerCase_def dropWhile_lower rev_map)



lemma trim_idem: "trim (trim s) = trim s"
proof (cases "trim s = []")
  case True
  have "trim [] = []" by (simp add: trim_def)
  then show ?thesis by (simp only: True)
next
  case False
  then show ?thesis using trim_hd [of s] trim_last [of s] by (simp add: trim_fixed)
qed

lemma typed_term_fixed:
  "trim (typed_term s) = typed_term s \<and> toLowerCase (typed_term s) = typed_term s"
  by (simp add: typed_term_def trim_lower trim_idem toLowerCase_idem)

text \<open>
  Claim C4, as amended. Every term that \<open>parseCommaList\<close> produces is not empty, has no white
  space at either end and contains no comma; the term the typeahead handler compares is trimmed
  and lower-cased. Neither lower-cases the list terms or collapses white space inside a term.
\<close>

theorem client_terms_trimmed:
  "(\<forall>t \<in> set (parseCommaList v). t \<noteq> [] \<and> trim t = t \<and> CHR '','' \<notin> set t)
   \<and> trim (typed_term s) = typed_term s \<and> toLowerCase (typed_term s) = typed_term s"
proof (intro conjI ballI)
  fix t assume "t \<in> set (parseCommaList v)"
  then have ok: "term_ok t" by (rule parse_term_ok)
  then show "t \<noteq> []" "CHR '','' \<notin> set t" by (simp_all add: term_ok_def)
  show "trim t = t" using ok by (simp add: term_ok_def trim_fixed)
qed (simp_all add: typed_term_fixed)

theorem client_terms_trimmed_witness:
  "parseCommaList (Some '' Rice ,, Coconut  Milk '') = [''Rice'', ''Coconut  Milk'']
   \<and> trim ''Rice'' = ''Rice'' \<and> trim ''Coconut  Milk'' = ''Coconut  Milk''
   \<and> typed_term '' Coconut  Milk '' = ''coconut  milk''"
  using client_terms_trimmed [of "Some '' Rice ,, Coconut  Milk ''" "'' Coconut  Milk ''"]
  by (simp add: parseCommaList_def or_empty_def split_comma_def trim_def is_ws_def
      typed_term_def toLowerCase_def lower_char_def)

text \<open>
  The claim as stated fails: a list term keeps its capitals and its inner run of spaces, and the
  typeahead handler keeps the inner run of spaces, where normalisation gives \<open>coconut milk\<close>.
\<close>

theorem terms_not_normalized:
  "parseCommaList (Some ''Coconut  Milk'') = [''Coconut  Milk'']
   \<and> typed_term ''Coconut  Milk'' = ''coconut  milk''
   \<and> normalize ''Coconut  Milk'' = ''coconut milk''
   \<and> parseCommaList (Some ''Coconut  Milk'') \<noteq> [normalize ''Coconut  Milk'']
   \<and> typed_term ''Coconut  Milk'' \<noteq> normalize ''Coconut  Milk''"
  by (simp add: parseCommaList_def or_empty_def split_comma_def trim_def is_ws_def
      typed_term_def normalize_def toLowerCase_def lower_char_def)

section \<open>Ranking\<close>

lemma ranks_before_trans: "ranks_before a b \<Longrightarrow> ranks_before b c \<Longrightarrow> ranks_before a c"
  unfolding ranks_before_def by (elim disjE conjE) auto

lemma ranks_before_total: "\<not> ranks_before a b \<Longrightarrow> ranks_before b a"
  unfolding ranks_before_def by (auto simp: not_less)

lemma set_insert_ranked: "set (insert_ranked x ys) = insert x (set ys)"
  by (induction ys) auto

lemma mset_insert_ranked: "mset (insert_ranked x ys) = add_mset x (mset ys)"
  by (induction ys) auto

lemma sorted_insert_ranked:
  "sorted_wrt ranks_before ys \<Longrightarrow> sorted_wrt ranks_before (insert_ranked x ys)"
proof (induction ys)
  case Nil
  show ?case by simp
next
  case (Cons y ys)
  show ?case
  proof (cases "ranks_before x y")
    case True
    have "\<forall>z \<in> set ys. ranks_before x z"
      using Cons.prems True ranks_before_trans by auto
    then show ?thesis using True Cons.prems by simp
  next
    case False
    then have "ranks_before y x" by (rule ranks_before_total)
    then show ?thesis using False Cons by (auto simp: set_insert_ranked)
  qed
qed

lemma sorted_rank: "sorted_wrt ranks_before (rank xs)"
  by (induction xs) (simp_all add: sorted_insert_ranked)

lemma set_rank: "set (rank xs) = set xs"
  by (induction xs) (simp_all add: set_insert_ranked)

lemma mset_rank: "mset (rank xs) = mset xs"
  by (induction xs) (simp_all add: mset_insert_ranked)

lemma score_recipe_score:
  "score (score_recipe q r) = int (have_count (score_recipe q r)) - int (missing_count (score_recipe q r))"
  by (simp add: score_recipe_def Let_def)

lemma counts_cover:
  "have_count (score_recipe q r) + missing_count (score_recipe q r) = length (r_ingredients r)"
  by (simp add: score_recipe_def Let_def sum_length_filter_compl)

text \<open>
  Claim C1. For every query and corpus, each search result has
  \<open>score = have_count - missing_count\<close>; the results are sorted descending by score, then
  descending by \<open>have_count\<close>, then ascending by recipe id; there are at most \<open>limit\<close> of them,
  and they are the first \<open>limit\<close> entries of a ranking of all scored recipes that pass the
  filters.
\<close>

theorem search_ranked:
  "(\<forall>s \<in> set (search q recipes). score s = int (have_count s) - int (missing_count s))
   \<and> sorted_wrt ranks_before (search q recipes)
   \<and> length (search q recipes) \<le> q_limit q
   \<and> (\<exists>ranking. mset ranking = mset (scored_survivors q recipes)
         \<and> sorted_wrt ranks_before ranking
         \<and> search q recipes = take (q_limit q) ranking)"
proof (intro conjI ballI)
  fix s assume "s \<in> set (search q recipes)"
  then have "s \<in> set (rank (scored_survivors q recipes))"
    unfolding search_def by (rule in_set_takeD)
  then have "s \<in> set (scored_survivors q recipes)" by (simp only: set_rank)
  then obtain r where "s = score_recipe q r" by (auto simp: scored_survivors_def)
  then show "score s = int (have_count s) - int (missing_count s)"
    by (simp only: score_recipe_score)
next
  show "sorted_wrt ranks_before (search q recipes)"
    unfolding search_def by (intro sorted_wrt_take sorted_rank)
  show "length (search q recipes) \<le> q_limit q" by (simp add: search_def)
  show "\<exists>ranking. mset ranking = mset (scored_survivors q recipes)
         \<and> sorted_wrt ranks_before ranking
         \<and> search q recipes = take (q_limit q) ranking"
    using mset_rank sorted_rank search_def by blast
qed



theorem search_ranked_witness:
  "search
     \<lparr>q_have = [''FOODON:A'', ''FOODON:M''], q_avoid = [''FOODON:P''], q_diet_filters = [],
      q_avoid_allergens = [], q_limit = 2\<rparr>
     [\<lparr>r_id = ''R003'', r_ingredients = [[''FOODON:R''], [''FOODON:M'']], r_diet_tags = [],
        r_allergens = []\<rparr>,
      \<lparr>r_id = ''R002'', r_ingredients = [[''FOODON:A'', ''FOODON:M'']], r_diet_tags = [],
        r_allergens = []\<rparr>,
      \<lparr>r_id = ''R001'', r_ingredients = [[''FOODON:M'']], r_diet_tags = [], r_allergens = []\<rparr>,
      \<lparr>r_id = ''R004'', r_ingredients = [[''FOODON:P'']], r_diet_tags = [], r_allergens = []\<rparr>]
   = [\<lparr>sr_id = ''R001'', have_count = 1, missing_count = 0, avoid_count = 0, score = 1\<rparr>,
      \<lparr>sr_id = ''R002'', have_count = 1, missing_count = 0, avoid_count = 0, score = 1\<rparr>]
   \<and> sorted_wrt ranks_before
      [\<lparr>sr_id = ''R001'', have_count = 1, missing_count = 0, avoid_count = 0, score = 1\<rparr>,
       \<lparr>sr_id = ''R002'', have_count = 1, missing_count = 0, avoid_count = 0, score = 1\<rparr>]"
  using search_ranked
    [of "\<lparr>q_have = [''FOODON:A'', ''FOODON:M''], q_avoid = [''FOODON:P''], q_diet_filters = [],
          q_avoid_allergens = [], q_limit = 2\<rparr>"
        "[\<lparr>r_id = ''R003'', r_ingredients = [[''FOODON:R''], [''FOODON:M'']], r_diet_tags = [],
            r_allergens = []\<rparr>,
          \<lparr>r_id = ''R002'', r_ingredients = [[''FOODON:A'', ''FOODON:M'']], r_diet_tags = [],
            r_allergens = []\<rparr>,
          \<lparr>r_id = ''R001'', r_ingredients = [[''FOODON:M'']], r_diet_tags = [],
            r_allergens = []\<rparr>,
          \<lparr>r_id = ''R004'', r_ingredients = [[''FOODON:P'']], r_diet_tags = [],
            r_allergens = []\<rparr>]"]
  by (simp add: search_def scored_survivors_def score_recipe_def excluded_def is_have_def
      intersects_def ranks_before_def)

end
